theory Spec2Isabelle
  imports Main "HOL-Library.Signed_Division" "HOL-Library.Option_ord" "HOL-Library.Multiset"
    "HOL-Library.AList" "HOL-Library.Sublist"
begin

section \<open>Values read from the browsers' SQLite stores\<close>

text \<open>
  \<^verbatim>\<open>sqlite3\<close> hands a column to Python as \<^verbatim>\<open>None\<close>, an \<^verbatim>\<open>int\<close> or a \<^verbatim>\<open>str\<close>
  (floating point and blob columns are left out of the model). Python compares and hashes
  these by value, which is HOL equality on \<open>pyval\<close>.
\<close>

datatype pyval = PNone | PInt int | PStr string

text \<open>Decimal digits of a number, as Python's \<^verbatim>\<open>str(int)\<close> and \<^verbatim>\<open>%d\<close> print them.\<close>

fun str_of_nat :: "nat \<Rightarrow> string" where
  "str_of_nat n =
     (if n < 10 then [''0123456789'' ! n]
      else str_of_nat (n div 10) @ [''0123456789'' ! (n mod 10)])"

declare str_of_nat.simps [simp del]

definition str_of_int :: "int \<Rightarrow> string" where
  "str_of_int i = (if i < 0 then CHR ''-'' # str_of_nat (nat (- i)) else str_of_nat (nat i))"

text \<open>\<^verbatim>\<open>str(v)\<close>, which an f-string applies to each value it interpolates.\<close>

fun py_str :: "pyval \<Rightarrow> string" where
  "py_str PNone = ''None''"
| "py_str (PInt i) = str_of_int i"
| "py_str (PStr s) = s"

text \<open>Truthiness of a value, as \<^verbatim>\<open>if v\<close> tests it.\<close>

fun truthy :: "pyval \<Rightarrow> bool" where
  "truthy PNone = False"
| "truthy (PInt i) = (i \<noteq> 0)"
| "truthy (PStr s) = (s \<noteq> [])"

section \<open>SQLite date and time functions used by the queries\<close>

text \<open>
  The three queries compute \<^verbatim>\<open>visit_time\<close> inside SQLite. The functions below follow
  SQLite's \<^verbatim>\<open>date.c\<close> on whole numbers: dates are Julian day numbers in milliseconds,
  \<^verbatim>\<open>/\<close> on integers truncates towards zero, and an operator with a NULL operand
  yields NULL.
\<close>

definition digit_val :: "char \<Rightarrow> nat option" where
  "digit_val c =
     (if c \<in> set ''0123456789'' then Some (length (takeWhile (\<lambda>d. d \<noteq> c) ''0123456789''))
      else None)"

fun getDigits :: "nat \<Rightarrow> string \<Rightarrow> nat option" where
  "getDigits acc [] = Some acc"
| "getDigits acc (c # cs) =
     (case digit_val c of None \<Rightarrow> None | Some d \<Rightarrow> getDigits (10 * acc + d) cs)"

text \<open>\<^verbatim>\<open>YYYY-MM-DD\<close>, the only date format the queries write.\<close>

definition parseYyyyMmDd :: "string \<Rightarrow> (int \<times> int \<times> int) option" where
  "parseYyyyMmDd z =
     (if length z = 10 \<and> z ! 4 = CHR ''-'' \<and> z ! 7 = CHR ''-'' then
        (case (getDigits 0 (take 4 z), getDigits 0 (take 2 (drop 5 z)), getDigits 0 (drop 8 z)) of
           (Some y, Some m, Some d) \<Rightarrow>
             (if 1 \<le> m \<and> m \<le> 12 \<and> 1 \<le> d \<and> d \<le> 31 then Some (int y, int m, int d) else None)
         | _ \<Rightarrow> None)
      else None)"

text \<open>Julian day number, in milliseconds, of midnight of a calendar date.\<close>

definition computeJD :: "int \<times> int \<times> int \<Rightarrow> int" where
  "computeJD ymd =
     (case ymd of (Y0, M0, D) \<Rightarrow>
        let Y = (if M0 \<le> 2 then Y0 - 1 else Y0);
            M = (if M0 \<le> 2 then M0 + 12 else M0);
            A = (Y + 4800) sdiv 100;
            B = 38 - A + (A sdiv 4);
            X1 = (36525 * (Y + 4716)) sdiv 100;
            X2 = (306001 * (M + 1)) sdiv 10000
        in (X1 + X2 + D + B) * 86400000 - 131716800000)"

text \<open>\<^verbatim>\<open>strftime('%s', date)\<close>: seconds from 1970-01-01 to the date.\<close>

definition strftime_s :: "string \<Rightarrow> int option" where
  "strftime_s z = map_option (\<lambda>ymd. computeJD ymd sdiv 1000 - 210866760000) (parseYyyyMmDd z)"

text \<open>Calendar date and time of day of a Julian day number in milliseconds.\<close>

definition computeYMD :: "int \<Rightarrow> int \<times> int \<times> int" where
  "computeYMD iJD =
     (let Z = (iJD + 43200000) sdiv 86400000;
          alpha = ((4 * Z + 128179) sdiv 146097) - 52;
          A = Z + 1 + alpha - ((alpha + 100) sdiv 4) + 25;
          B = A + 1524;
          C = (100 * B - 12210) sdiv 36525;
          D = (36525 * C) sdiv 100;
          E = ((B - D) * 10000) sdiv 306001;
          X1 = (306001 * E) sdiv 10000;
          M = (if E < 14 then E - 1 else E - 13)
      in (if M > 2 then C - 4716 else C - 4715, M, B - D - X1))"

definition computeHMS :: "int \<Rightarrow> int \<times> int \<times> int" where
  "computeHMS iJD =
     (let day_ms = (iJD + 43200000) smod 86400000;
          day_min = day_ms sdiv 60000
      in (day_min sdiv 60, day_min smod 60, (day_ms smod 60000) sdiv 1000))"

definition pad2 :: "int \<Rightarrow> string" where
  "pad2 n = [''0123456789'' ! nat ((n sdiv 10) smod 10), ''0123456789'' ! nat (n smod 10)]"

definition pad4 :: "int \<Rightarrow> string" where
  "pad4 n = pad2 ((n sdiv 100) smod 100) @ pad2 (n smod 100)"

text \<open>
  \<^verbatim>\<open>datetime(x, 'unixepoch')\<close>: \<^verbatim>\<open>x\<close> counts seconds from 1970-01-01; the result is the
  text \<^verbatim>\<open>YYYY-MM-DD HH:MM:SS\<close>, or NULL for a NULL argument or one outside the years
  SQLite can print.
\<close>

definition datetime_unixepoch :: "int option \<Rightarrow> pyval" where
  "datetime_unixepoch x =
     (case x of
        None \<Rightarrow> PNone
      | Some s \<Rightarrow>
          let r = s * 1000 + 210866760000000 in
          if 0 \<le> r \<and> r < 464269060800000 then
            (case (computeYMD r, computeHMS r) of
               ((Y, M, D), (h, m, sec)) \<Rightarrow>
                 PStr ((if Y < 0 then ''-'' else '''') @ pad4 (abs Y) @ ''-'' @ pad2 M @ ''-'' @ pad2 D
                       @ '' '' @ pad2 h @ '':'' @ pad2 m @ '':'' @ pad2 sec))
          else PNone)"

section \<open>The monitor's state\<close>

text \<open>
  Exceptions are values; \<open>exc_str\<close> is \<^verbatim>\<open>str(e)\<close>, which the handlers put in their
  log messages.
\<close>

datatype pyexc = OSError string | DatabaseError string | ValueError string | AttributeError string

fun exc_str :: "pyexc \<Rightarrow> string" where
  "exc_str (OSError m) = m"
| "exc_str (DatabaseError m) = m"
| "exc_str (ValueError m) = m"
| "exc_str (AttributeError m) = m"

text \<open>
  What one \<^verbatim>\<open>WebsiteMonitor\<close> object and the files it owns hold: the dedup set
  \<^verbatim>\<open>self.seen_urls\<close>, the records of \<^verbatim>\<open>self.logger\<close> (level and message, oldest
  first), the rows of \<^verbatim>\<open>self.csv_file\<close> as the \<^verbatim>\<open>csv\<close> module reads and writes them
  (\<open>None\<close> when the file does not exist), the snapshot files present under \<^verbatim>\<open>/tmp\<close>,
  and the number of \<^verbatim>\<open>time.sleep(self.check_interval)\<close> calls made so far.
\<close>

record monitor =
  seen_urls :: "pyval set"
  log_lines :: "(string \<times> string) list"
  csv_file :: "string list list option"
  tmp_files :: "string set"
  sleeps :: nat

definition logger_info :: "string \<Rightarrow> monitor \<Rightarrow> monitor" where
  "logger_info msg st = st\<lparr>log_lines := log_lines st @ [(''INFO'', msg)]\<rparr>"

definition logger_error :: "string \<Rightarrow> monitor \<Rightarrow> monitor" where
  "logger_error msg st = st\<lparr>log_lines := log_lines st @ [(''ERROR'', msg)]\<rparr>"

definition time_sleep :: "monitor \<Rightarrow> monitor" where
  "time_sleep st = st\<lparr>sleeps := Suc (sleeps st)\<rparr>"

section \<open>Source adapters\<close>

text \<open>
  What an adapter finds at the path it is given: copying the file fails, or the copy
  succeeds and opening or querying the snapshot fails, or the query runs on the tables.
\<close>

datatype 'a store = CopyFails pyexc | QueryFails pyexc | Table 'a

definition copy2 :: "'a store \<Rightarrow> string \<Rightarrow> monitor \<Rightarrow> pyexc + monitor" where
  "copy2 src temp_path st =
     (case src of
        CopyFails e \<Rightarrow> Inl e
      | _ \<Rightarrow> Inr (st\<lparr>tmp_files := insert temp_path (tmp_files st)\<rparr>))"

definition fetchall :: "'a store \<Rightarrow> ('a \<Rightarrow> 'b) \<Rightarrow> pyexc + 'b" where
  "fetchall src query =
     (case src of
        CopyFails e \<Rightarrow> Inl e
      | QueryFails e \<Rightarrow> Inl e
      | Table t \<Rightarrow> Inr (query t))"

definition os_remove :: "string \<Rightarrow> monitor \<Rightarrow> monitor" where
  "os_remove p st = st\<lparr>tmp_files := tmp_files st - {p}\<rparr>"

subsection \<open>The queries\<close>

definition sql_div :: "int option \<Rightarrow> int option \<Rightarrow> int option" where
  "sql_div a b =
     (case (a, b) of (Some x, Some y) \<Rightarrow> (if y = 0 then None else Some (x sdiv y)) | _ \<Rightarrow> None)"

definition sql_add :: "int option \<Rightarrow> int option \<Rightarrow> int option" where
  "sql_add a b = (case (a, b) of (Some x, Some y) \<Rightarrow> Some (x + y) | _ \<Rightarrow> None)"

text \<open>
  \<^verbatim>\<open>ORDER BY k DESC\<close>: largest key first, NULL (the least \<open>option\<close> value) last.
  \<^verbatim>\<open>LIMIT n\<close> keeps the first \<open>n\<close> rows.
\<close>

definition order_by_desc :: "('a \<Rightarrow> 'k::linorder) \<Rightarrow> 'a list \<Rightarrow> 'a list" where
  "order_by_desc k rows = rev (sort_key k rows)"

definition limit :: "nat \<Rightarrow> 'a list \<Rightarrow> 'a list" where
  "limit n rows = take n rows"

text \<open>A row of Chromium's \<^verbatim>\<open>urls\<close>: url, title, visit_count, last_visit_time.\<close>

type_synonym urls_row = "pyval \<times> pyval \<times> pyval \<times> int option"

definition last_visit_time :: "urls_row \<Rightarrow> int option" where
  "last_visit_time r = snd (snd (snd r))"

definition chrome_visit_time :: "int option \<Rightarrow> pyval" where
  "chrome_visit_time t =
     datetime_unixepoch (sql_add (sql_div t (Some 1000000)) (strftime_s ''1601-01-01''))"

definition chrome_select :: "urls_row \<Rightarrow> pyval \<times> pyval \<times> pyval \<times> pyval" where
  "chrome_select r = (case r of (u, t, c, lvt) \<Rightarrow> (u, t, c, chrome_visit_time lvt))"

definition chrome_query :: "urls_row list \<Rightarrow> (pyval \<times> pyval \<times> pyval \<times> pyval) list" where
  "chrome_query urls = map chrome_select (limit 100 (order_by_desc last_visit_time urls))"

text \<open>
  Safari: \<^verbatim>\<open>history_items\<close> rows are (id, url), \<^verbatim>\<open>history_visits\<close> rows are
  (history_item, title, visit_time); \<^verbatim>\<open>visit_time\<close> is taken in whole seconds.
\<close>

type_synonym history_item = "int \<times> pyval"
type_synonym history_visit = "int \<times> pyval \<times> int option"
type_synonym safari_row = "pyval \<times> pyval \<times> int option"

definition safari_join :: "history_item list \<times> history_visit list \<Rightarrow> safari_row list" where
  "safari_join db =
     (case db of (history_items, history_visits) \<Rightarrow>
        concat (map (\<lambda>(item_id, u).
                  map (\<lambda>(hi, t, vt). (u, t, vt))
                      (filter (\<lambda>(hi, t, vt). item_id = hi) history_visits))
                history_items))"

definition safari_visit_time0 :: "safari_row \<Rightarrow> int option" where
  "safari_visit_time0 r = snd (snd r)"

definition safari_visit_time :: "int option \<Rightarrow> pyval" where
  "safari_visit_time t = datetime_unixepoch (sql_add t (Some 978307200))"

definition safari_select :: "safari_row \<Rightarrow> pyval \<times> pyval \<times> pyval" where
  "safari_select r = (case r of (u, t, vt) \<Rightarrow> (u, t, safari_visit_time vt))"

definition safari_query ::
  "history_item list \<times> history_visit list \<Rightarrow> (pyval \<times> pyval \<times> pyval) list" where
  "safari_query db = map safari_select (limit 100 (order_by_desc safari_visit_time0 (safari_join db)))"

text \<open>A row of Firefox's \<^verbatim>\<open>moz_places\<close>: url, title, visit_count, last_visit_date.\<close>

type_synonym moz_place = "pyval \<times> pyval \<times> pyval \<times> int option"

definition last_visit_date :: "moz_place \<Rightarrow> int option" where
  "last_visit_date r = snd (snd (snd r))"

definition firefox_where :: "moz_place list \<Rightarrow> moz_place list" where
  "firefox_where moz_places = filter (\<lambda>r. last_visit_date r \<noteq> None) moz_places"

definition firefox_visit_time :: "int option \<Rightarrow> pyval" where
  "firefox_visit_time t = datetime_unixepoch (sql_div t (Some 1000000))"

definition firefox_select :: "moz_place \<Rightarrow> pyval \<times> pyval \<times> pyval \<times> pyval" where
  "firefox_select r = (case r of (u, t, c, lvd) \<Rightarrow> (u, t, c, firefox_visit_time lvd))"

definition firefox_query :: "moz_place list \<Rightarrow> (pyval \<times> pyval \<times> pyval \<times> pyval) list" where
  "firefox_query moz_places =
     map firefox_select (limit 100 (order_by_desc last_visit_date (firefox_where moz_places)))"

subsection \<open>The adapters\<close>

text \<open>
  Each adapter is a \<^verbatim>\<open>try\<close> body (copy, query, remove the snapshot, return the rows)
  and an \<^verbatim>\<open>except Exception\<close> handler that logs and returns \<^verbatim>\<open>[]\<close>. The body returns
  the exception together with the state at the point where it was raised.
\<close>

definition adapter_body ::
  "string \<Rightarrow> ('a \<Rightarrow> 'b list) \<Rightarrow> 'a store \<Rightarrow> monitor \<Rightarrow> (pyexc \<times> monitor) + ('b list \<times> monitor)" where
  "adapter_body temp_path query src st =
     (case copy2 src temp_path st of
        Inl e \<Rightarrow> Inl (e, st)
      | Inr st1 \<Rightarrow>
          (case fetchall src query of
             Inl e \<Rightarrow> Inl (e, st1)
           | Inr results \<Rightarrow> Inr (results, os_remove temp_path st1)))"

definition get_chrome_history ::
  "urls_row list store \<Rightarrow> monitor \<Rightarrow> (pyval \<times> pyval \<times> pyval \<times> pyval) list \<times> monitor" where
  "get_chrome_history history_path st =
     (case adapter_body ''/tmp/chrome_history_copy.db'' chrome_query history_path st of
        Inr r \<Rightarrow> r
      | Inl (e, st') \<Rightarrow> ([], logger_error (''Error reading Chrome history: '' @ exc_str e) st'))"

definition get_safari_history ::
  "(history_item list \<times> history_visit list) store \<Rightarrow> monitor
     \<Rightarrow> (pyval \<times> pyval \<times> pyval) list \<times> monitor" where
  "get_safari_history history_path st =
     (case adapter_body ''/tmp/safari_history_copy.db'' safari_query history_path st of
        Inr r \<Rightarrow> r
      | Inl (e, st') \<Rightarrow> ([], logger_error (''Error reading Safari history: '' @ exc_str e) st'))"

definition get_firefox_history ::
  "moz_place list store \<Rightarrow> monitor \<Rightarrow> (pyval \<times> pyval \<times> pyval \<times> pyval) list \<times> monitor" where
  "get_firefox_history profile_path st =
     (case adapter_body ''/tmp/firefox_history_copy.db'' firefox_query profile_path st of
        Inr r \<Rightarrow> r
      | Inl (e, st') \<Rightarrow> ([], logger_error (''Error reading Firefox history: '' @ exc_str e) st'))"

section \<open>Emission sink: the CSV log\<close>

text \<open>
  A record collected by the poll loop: the dict appended to \<^verbatim>\<open>new_visits\<close>. Safari's
  records have no \<^verbatim>\<open>visit_count\<close> key (\<open>None\<close>).
\<close>

record visit =
  browser :: string
  url :: pyval
  title :: pyval
  visit_time :: pyval
  visit_count :: "pyval option"

text \<open>
  A dict handled by \<^verbatim>\<open>csv.DictReader\<close> and \<^verbatim>\<open>csv.DictWriter\<close>: the entries under
  string keys, in insertion order, and the entry \<^verbatim>\<open>DictReader\<close> stores under its
  \<^verbatim>\<open>restkey\<close> (\<^verbatim>\<open>None\<close>) for a row longer than the header.
\<close>

record rowdict =
  named :: "(string \<times> pyval) list"
  rest :: "string list option"

definition fieldnames :: "string list" where
  "fieldnames = [''timestamp'', ''browser'', ''url'', ''title'', ''visit_time'', ''visit_count'']"

text \<open>\<^verbatim>\<open>DictReader.__next__\<close> on one row, and \<^verbatim>\<open>list(DictReader(csvfile))\<close>.\<close>

definition reader_dict :: "string list \<Rightarrow> string list \<Rightarrow> rowdict" where
  "reader_dict fnames row =
     (let lf = length fnames; lr = length row;
          d = AList.updates fnames (map PStr row) []
      in if lf < lr then \<lparr>named = d, rest = Some (drop lf row)\<rparr>
         else \<lparr>named = AList.updates (drop lr fnames) (replicate (lf - lr) PNone) d, rest = None\<rparr>)"

definition DictReader :: "string list list \<Rightarrow> rowdict list" where
  "DictReader rows =
     (case rows of
        [] \<Rightarrow> []
      | fnames # data \<Rightarrow> map (reader_dict fnames) (filter (\<lambda>row. row \<noteq> []) data))"

text \<open>The text the \<^verbatim>\<open>csv\<close> writer puts in a cell.\<close>

fun csv_field :: "pyval \<Rightarrow> string" where
  "csv_field PNone = []"
| "csv_field (PInt i) = str_of_int i"
| "csv_field (PStr s) = s"

text \<open>
  \<^verbatim>\<open>DictWriter._dict_to_list\<close> with \<^verbatim>\<open>extrasaction='raise'\<close> and \<^verbatim>\<open>restval=''\<close>.
\<close>

definition dict_to_list :: "string list \<Rightarrow> rowdict \<Rightarrow> pyexc + string list" where
  "dict_to_list fnames rowdict =
     (if filter (\<lambda>k. k \<notin> set fnames) (map fst (named rowdict)) \<noteq> [] \<or> rest rowdict \<noteq> None
      then Inl (ValueError ''dict contains fields not in fieldnames'')
      else Inr (map (\<lambda>key. csv_field (case map_of (named rowdict) key of
                                         None \<Rightarrow> PStr [] | Some v \<Rightarrow> v)) fnames))"

text \<open>\<^verbatim>\<open>s.replace(old, new)\<close> for a one-character \<^verbatim>\<open>old\<close>.\<close>

definition replace :: "char \<Rightarrow> string \<Rightarrow> string \<Rightarrow> string" where
  "replace old new s = concat (map (\<lambda>c. if c = old then new else [c]) s)"

text \<open>
  Line 64: the title is cleaned when it is truthy; \<^verbatim>\<open>.replace\<close> on a value that is
  not a \<^verbatim>\<open>str\<close> raises.
\<close>

definition clean_title :: "pyval \<Rightarrow> pyexc + string" where
  "clean_title t =
     (if truthy t then
        (case t of
           PStr s \<Rightarrow> Inr (replace (CHR 0x0D) '' '' (replace (CHR 0x0A) '' ''
                          (replace (CHR 0x22) [CHR 0x22, CHR 0x22] s)))
         | _ \<Rightarrow> Inl (AttributeError ''object has no attribute replace''))
      else Inr [])"

definition new_row :: "string \<Rightarrow> visit \<Rightarrow> string \<Rightarrow> rowdict" where
  "new_row now visit_data t =
     \<lparr>named = [(''timestamp'', PStr now),
               (''browser'', PStr (browser visit_data)),
               (''url'', url visit_data),
               (''title'', PStr t),
               (''visit_time'', visit_time visit_data),
               (''visit_count'', (case visit_count visit_data of None \<Rightarrow> PStr [] | Some c \<Rightarrow> c))],
      rest = None\<rparr>"

text \<open>
  The ways the file system can fail one call of \<^verbatim>\<open>log_to_csv\<close>: reading the existing
  file raises, opening it for writing raises, or the write of row number \<open>n\<close> (the header
  is row 0) raises after the rows before it were written.
\<close>

datatype csv_fault = NoFault | ReadFails pyexc | OpenWriteFails pyexc | WriteFails nat pyexc

definition read_existing :: "csv_fault \<Rightarrow> monitor \<Rightarrow> pyexc + rowdict list" where
  "read_existing fault st =
     (case csv_file st of
        None \<Rightarrow> Inr []
      | Some rows \<Rightarrow> (case fault of ReadFails e \<Rightarrow> Inl e | _ \<Rightarrow> Inr (DictReader rows)))"

definition inject :: "csv_fault \<Rightarrow> (pyexc + string list) list \<Rightarrow> (pyexc + string list) list" where
  "inject fault rs =
     (case fault of WriteFails n e \<Rightarrow> (if n < length rs then rs[n := Inl e] else rs) | _ \<Rightarrow> rs)"

text \<open>Rows are written one after the other; the first that raises ends the writing.\<close>

fun write_all :: "(pyexc + string list) list \<Rightarrow> string list list \<times> pyexc option" where
  "write_all [] = ([], None)"
| "write_all (Inl e # rs) = ([], Some e)"
| "write_all (Inr r # rs) = (case write_all rs of (out, err) \<Rightarrow> (r # out, err))"

text \<open>
  The \<^verbatim>\<open>try\<close> body of \<^verbatim>\<open>log_to_csv\<close>; \<open>now\<close> is \<^verbatim>\<open>datetime.now().isoformat()\<close>.
  \<^verbatim>\<open>open(..., 'w')\<close> empties the file; header, new row and existing rows follow.
\<close>

definition log_to_csv_body ::
  "csv_fault \<Rightarrow> string \<Rightarrow> visit \<Rightarrow> monitor \<Rightarrow> (pyexc \<times> monitor) + monitor" where
  "log_to_csv_body fault now visit_data st =
     (case clean_title (title visit_data) of
        Inl e \<Rightarrow> Inl (e, st)
      | Inr t \<Rightarrow>
          (case read_existing fault st of
             Inl e \<Rightarrow> Inl (e, st)
           | Inr existing_data \<Rightarrow>
               (case fault of
                  OpenWriteFails e \<Rightarrow> Inl (e, st)
                | _ \<Rightarrow>
                    (case write_all (inject fault
                            (Inr fieldnames #
                             map (dict_to_list fieldnames) (new_row now visit_data t # existing_data))) of
                       (out, None) \<Rightarrow> Inr (st\<lparr>csv_file := Some out\<rparr>)
                     | (out, Some e) \<Rightarrow> Inl (e, st\<lparr>csv_file := Some out\<rparr>)))))"

definition log_to_csv :: "csv_fault \<Rightarrow> string \<Rightarrow> visit \<Rightarrow> monitor \<Rightarrow> monitor" where
  "log_to_csv fault now visit_data st =
     (case log_to_csv_body fault now visit_data st of
        Inr st' \<Rightarrow> st'
      | Inl (e, st') \<Rightarrow> logger_error (''Error writing to CSV: '' @ exc_str e) st')"

definition init_csv_file :: "monitor \<Rightarrow> monitor" where
  "init_csv_file st = (case csv_file st of None \<Rightarrow> st\<lparr>csv_file := Some [fieldnames]\<rparr> | Some _ \<Rightarrow> st)"

section \<open>Poll loop\<close>

text \<open>
  What one iteration finds: for each browser path whether it exists (\<open>None\<close> when it
  does not) and what the adapter meets there; for Firefox the profile directory, whose
  listing may raise, with one entry per profile (\<open>None\<close> when the profile has no
  \<^verbatim>\<open>places.sqlite\<close>); and, for the \<open>i\<close>-th record emitted in the iteration, the clock
  reading and what the file system does to the CSV write.
\<close>

datatype profiles = ListdirFails pyexc | Listdir "moz_place list store option list"

record env =
  chrome_path :: "urls_row list store option"
  safari_path :: "(history_item list \<times> history_visit list) store option"
  firefox_base :: "profiles option"
  edge_path :: "urls_row list store option"
  clock :: "nat \<Rightarrow> string"
  faults :: "nat \<Rightarrow> csv_fault"

text \<open>The four collection loops (lines 186-195, 201-209, 218-227, 233-242).\<close>

fun collect4 ::
  "string \<Rightarrow> (pyval \<times> pyval \<times> pyval \<times> pyval) list \<Rightarrow> visit list \<times> monitor \<Rightarrow> visit list \<times> monitor" where
  "collect4 b [] acc = acc"
| "collect4 b ((u, t, c, vt) # history) (new_visits, st) =
     (if u \<notin> seen_urls st then
        collect4 b history
          (new_visits @ [\<lparr>browser = b, url = u, title = t, visit_time = vt, visit_count = Some c\<rparr>],
           st\<lparr>seen_urls := insert u (seen_urls st)\<rparr>)
      else collect4 b history (new_visits, st))"

fun collect3 ::
  "string \<Rightarrow> (pyval \<times> pyval \<times> pyval) list \<Rightarrow> visit list \<times> monitor \<Rightarrow> visit list \<times> monitor" where
  "collect3 b [] acc = acc"
| "collect3 b ((u, t, vt) # history) (new_visits, st) =
     (if u \<notin> seen_urls st then
        collect3 b history
          (new_visits @ [\<lparr>browser = b, url = u, title = t, visit_time = vt, visit_count = None\<rparr>],
           st\<lparr>seen_urls := insert u (seen_urls st)\<rparr>)
      else collect3 b history (new_visits, st))"

definition check_chrome :: "env \<Rightarrow> visit list \<times> monitor \<Rightarrow> visit list \<times> monitor" where
  "check_chrome e acc =
     (case chrome_path e of
        None \<Rightarrow> acc
      | Some p \<Rightarrow>
          (case get_chrome_history p (snd acc) of
             (history, st') \<Rightarrow> collect4 ''Chrome'' history (fst acc, st')))"

definition check_safari :: "env \<Rightarrow> visit list \<times> monitor \<Rightarrow> visit list \<times> monitor" where
  "check_safari e acc =
     (case safari_path e of
        None \<Rightarrow> acc
      | Some p \<Rightarrow>
          (case get_safari_history p (snd acc) of
             (history, st') \<Rightarrow> collect3 ''Safari'' history (fst acc, st')))"

fun check_profiles ::
  "moz_place list store option list \<Rightarrow> visit list \<times> monitor \<Rightarrow> visit list \<times> monitor" where
  "check_profiles [] acc = acc"
| "check_profiles (None # ps) acc = check_profiles ps acc"
| "check_profiles (Some p # ps) acc =
     (case get_firefox_history p (snd acc) of
        (history, st') \<Rightarrow> check_profiles ps (collect4 ''Firefox'' history (fst acc, st')))"

definition check_firefox ::
  "env \<Rightarrow> visit list \<times> monitor \<Rightarrow> (pyexc \<times> visit list \<times> monitor) + (visit list \<times> monitor)" where
  "check_firefox e acc =
     (case firefox_base e of
        None \<Rightarrow> Inr acc
      | Some (ListdirFails x) \<Rightarrow> Inl (x, acc)
      | Some (Listdir ps) \<Rightarrow> Inr (check_profiles ps acc))"

definition check_edge :: "env \<Rightarrow> visit list \<times> monitor \<Rightarrow> visit list \<times> monitor" where
  "check_edge e acc =
     (case edge_path e of
        None \<Rightarrow> acc
      | Some p \<Rightarrow>
          (case get_chrome_history p (snd acc) of
             (history, st') \<Rightarrow> collect4 ''Edge'' history (fst acc, st')))"

text \<open>Lines 245-247: announce each new visit, then write it to the CSV log.\<close>

definition announcement :: "visit \<Rightarrow> string" where
  "announcement v =
     ''NEW VISIT: '' @ browser v @ '' - '' @ py_str (url v) @ '' - '' @ py_str (title v)
       @ '' - '' @ py_str (visit_time v)"

definition emit :: "csv_fault \<Rightarrow> string \<Rightarrow> visit \<Rightarrow> monitor \<Rightarrow> monitor" where
  "emit fault now v st = log_to_csv fault now v (logger_info (announcement v) st)"

fun log_new_visits :: "env \<Rightarrow> nat \<Rightarrow> visit list \<Rightarrow> monitor \<Rightarrow> monitor" where
  "log_new_visits e i [] st = st"
| "log_new_visits e i (v # vs) st = log_new_visits e (Suc i) vs (emit (faults e i) (clock e i) v st)"

text \<open>
  One pass through the body of \<^verbatim>\<open>while self.running\<close>. Besides the state it returns
  the records it collected and the records it handed to the sink.
\<close>

record outcome =
  collected :: "visit list"
  emitted :: "visit list"
  after :: monitor

definition collect_all ::
  "env \<Rightarrow> monitor \<Rightarrow> (pyexc \<times> visit list \<times> monitor) + (visit list \<times> monitor)" where
  "collect_all e st =
     (case check_firefox e (check_safari e (check_chrome e ([], st))) of
        Inl x \<Rightarrow> Inl x
      | Inr acc \<Rightarrow> Inr (check_edge e acc))"

definition iteration :: "env \<Rightarrow> monitor \<Rightarrow> outcome" where
  "iteration e st =
     (case collect_all e st of
        Inl (x, new_visits, st') \<Rightarrow>
          \<lparr>collected = new_visits, emitted = [],
           after = time_sleep (logger_error (''Error in monitoring loop: '' @ exc_str x) st')\<rparr>
      | Inr (new_visits, st') \<Rightarrow>
          \<lparr>collected = new_visits, emitted = new_visits,
           after = time_sleep (log_new_visits e 0 new_visits st')\<rparr>)"

text \<open>
  \<^verbatim>\<open>monitor_browsers\<close> over the iterations that run before the process is stopped,
  one \<open>env\<close> for each.
\<close>

fun monitor_browsers :: "env list \<Rightarrow> monitor \<Rightarrow> outcome" where
  "monitor_browsers [] st = \<lparr>collected = [], emitted = [], after = st\<rparr>"
| "monitor_browsers (e # es) st =
     (let o1 = iteration e st; o2 = monitor_browsers es (after o1)
      in \<lparr>collected = collected o1 @ collected o2, emitted = emitted o1 @ emitted o2,
          after = after o2\<rparr>)"

text \<open>
  \<^verbatim>\<open>WebsiteMonitor.__init__\<close> given the CSV file and the snapshot files it finds, and
  \<^verbatim>\<open>run\<close>.
\<close>

definition WebsiteMonitor :: "string list list option \<Rightarrow> string set \<Rightarrow> monitor" where
  "WebsiteMonitor csv tmp =
     init_csv_file \<lparr>seen_urls = {}, log_lines = [], csv_file = csv, tmp_files = tmp, sleeps = 0\<rparr>"

definition run :: "env list \<Rightarrow> monitor \<Rightarrow> outcome" where
  "run es st = monitor_browsers es (logger_info ''Website Monitor Daemon starting...'' st)"

section \<open>Auxiliary notions for the proofs\<close>

text \<open>
  \<open>extends acc acc'\<close>: going from \<open>acc\<close> to \<open>acc'\<close>, the list of new visits grew by
  records with pairwise different urls, none of them seen before, and exactly their urls
  were added to the dedup set; the CSV log and the sleep count are as before, and the
  logger received nothing but error records (\<open>only_errors\<close>).
\<close>

definition only_errors :: "monitor \<Rightarrow> monitor \<Rightarrow> bool" where
  "only_errors st st' \<longleftrightarrow>
     (\<exists>errs. log_lines st' = log_lines st @ errs \<and> fst ` set errs \<subseteq> {''ERROR''})"

definition extends :: "visit list \<times> monitor \<Rightarrow> visit list \<times> monitor \<Rightarrow> bool" where
  "extends acc acc' \<longleftrightarrow>
     (\<exists>new. fst acc' = fst acc @ new \<and> distinct (map url new)
        \<and> url ` set new \<inter> seen_urls (snd acc) = {}
        \<and> seen_urls (snd acc') = seen_urls (snd acc) \<union> url ` set new)
     \<and> csv_file (snd acc') = csv_file (snd acc) \<and> sleeps (snd acc') = sleeps (snd acc)
     \<and> only_errors (snd acc) (snd acc')"

text \<open>
  Inputs for the worked examples: one row of Chromium's \<^verbatim>\<open>urls\<close> (visited at
  2024-01-01 00:00:00), an iteration that finds no browser at all, one that finds this
  row in Chrome, and one where, after Chrome was read, listing the Firefox profile
  directory raises.
\<close>

definition a_com :: urls_row where
  "a_com = (PStr ''http://a.com'', PStr ''A'', PInt 1, Some 13348540800000000)"

definition quiet_env :: env where
  "quiet_env = \<lparr>chrome_path = None, safari_path = None, firefox_base = None, edge_path = None,
                clock = (\<lambda>i. ''2024-01-01T00:00:00''), faults = (\<lambda>i. NoFault)\<rparr>"

definition chrome_env :: env where
  "chrome_env = quiet_env\<lparr>chrome_path := Some (Table [a_com])\<rparr>"

definition listdir_env :: env where
  "listdir_env = chrome_env\<lparr>firefox_base := Some (ListdirFails (OSError ''Permission denied''))\<rparr>"

section \<open>Dedup engine: what the collection loops do to the dedup set\<close>

lemma only_errors_refl: "only_errors st st"
  by (simp add: only_errors_def)

lemma only_errors_trans:
  assumes "only_errors a b" and "only_errors b c"
  shows "only_errors a c"
proof -
  from assms(1) obtain e1 where e1: "log_lines b = log_lines a @ e1 \<and> fst ` set e1 \<subseteq> {''ERROR''}"
    unfolding only_errors_def ..
  from assms(2) obtain e2 where e2: "log_lines c = log_lines b @ e2 \<and> fst ` set e2 \<subseteq> {''ERROR''}"
    unfolding only_errors_def ..
  have both: "log_lines c = log_lines a @ (e1 @ e2) \<and> fst ` set (e1 @ e2) \<subseteq> {''ERROR''}"
    using e1 e2 by (simp add: image_Un)
  show ?thesis unfolding only_errors_def by (rule exI[where x = "e1 @ e2"], rule both)
qed

lemma only_errors_same: "log_lines st' = log_lines st \<Longrightarrow> only_errors st st'"
  by (simp add: only_errors_def)

lemma only_errors_logger_error: "only_errors st (logger_error m st)"
  unfolding only_errors_def logger_error_def by (intro exI[of _ "[(''ERROR'', m)]"]) simp

lemma extends_refl: "extends acc acc"
  by (simp add: extends_def only_errors_refl)

lemma extends_trans:
  assumes "extends a b" and "extends b c"
  shows "extends a c"
proof -
  from assms(1) have "\<exists>new. fst b = fst a @ new \<and> distinct (map url new)
        \<and> url ` set new \<inter> seen_urls (snd a) = {}
        \<and> seen_urls (snd b) = seen_urls (snd a) \<union> url ` set new"
    by (simp add: extends_def)
  then obtain n1 where n1: "fst b = fst a @ n1 \<and> distinct (map url n1)
        \<and> url ` set n1 \<inter> seen_urls (snd a) = {}
        \<and> seen_urls (snd b) = seen_urls (snd a) \<union> url ` set n1" ..
  from assms(2) have "\<exists>new. fst c = fst b @ new \<and> distinct (map url new)
        \<and> url ` set new \<inter> seen_urls (snd b) = {}
        \<and> seen_urls (snd c) = seen_urls (snd b) \<union> url ` set new"
    by (simp add: extends_def)
  then obtain n2 where n2: "fst c = fst b @ n2 \<and> distinct (map url n2)
        \<and> url ` set n2 \<inter> seen_urls (snd b) = {}
        \<and> seen_urls (snd c) = seen_urls (snd b) \<union> url ` set n2" ..
  have fr1: "csv_file (snd c) = csv_file (snd a)"
    using assms by (simp add: extends_def)
  have fr2: "sleeps (snd c) = sleeps (snd a)"
    using assms by (simp add: extends_def)
  have ab: "only_errors (snd a) (snd b)" using assms(1) by (simp add: extends_def)
  have bc: "only_errors (snd b) (snd c)" using assms(2) by (simp add: extends_def)
  have lg: "only_errors (snd a) (snd c)" by (rule only_errors_trans[OF ab bc])
  have d: "distinct (map url (n1 @ n2))" using n1 n2 by auto
  have i: "url ` set (n1 @ n2) \<inter> seen_urls (snd a) = {}" using n1 n2 by auto
  have u: "seen_urls (snd c) = seen_urls (snd a) \<union> url ` set (n1 @ n2)" using n1 n2 by auto
  have f: "fst c = fst a @ (n1 @ n2)" using n1 n2 by simp
  have all4: "fst c = fst a @ (n1 @ n2) \<and> distinct (map url (n1 @ n2))
        \<and> url ` set (n1 @ n2) \<inter> seen_urls (snd a) = {}
        \<and> seen_urls (snd c) = seen_urls (snd a) \<union> url ` set (n1 @ n2)"
    by (rule conjI[OF f conjI[OF d conjI[OF i u]]])
  have ex: "\<exists>new. fst c = fst a @ new \<and> distinct (map url new)
        \<and> url ` set new \<inter> seen_urls (snd a) = {}
        \<and> seen_urls (snd c) = seen_urls (snd a) \<union> url ` set new"
    by (rule exI[where x = "n1 @ n2"], rule all4)
  show ?thesis unfolding extends_def
    by (rule conjI[OF ex conjI[OF fr1 conjI[OF fr2 lg]]])
qed

lemma extends_same_seen:
  "seen_urls st' = seen_urls st \<Longrightarrow> csv_file st' = csv_file st \<Longrightarrow> sleeps st' = sleeps st
     \<Longrightarrow> only_errors st st' \<Longrightarrow> extends (nv, st) (nv, st')"
  by (simp add: extends_def)

lemma collect4_extends: "extends acc (collect4 b history acc)"
proof (induction b history acc rule: collect4.induct)
  case (1 b acc)
  show ?case by (simp add: extends_refl)
next
  case (2 b u t c vt history new_visits st)
  show ?case
  proof (cases "u \<in> seen_urls st")
    case True
    with 2 show ?thesis by simp
  next
    case False
    let ?v = "\<lparr>browser = b, url = u, title = t, visit_time = vt, visit_count = Some c\<rparr>"
    let ?mid = "(new_visits @ [?v], st\<lparr>seen_urls := insert u (seen_urls st)\<rparr>)"
    have "extends (new_visits, st) ?mid"
      unfolding extends_def using False
      by (intro conjI exI[of _ "[?v]"]) (simp_all add: only_errors_same)
    moreover have "extends ?mid (collect4 b history ?mid)" using 2(1) False by simp
    ultimately show ?thesis using False by (simp add: extends_trans)
  qed
qed

lemma collect3_extends: "extends acc (collect3 b history acc)"
proof (induction b history acc rule: collect3.induct)
  case (1 b acc)
  show ?case by (simp add: extends_refl)
next
  case (2 b u t vt history new_visits st)
  show ?case
  proof (cases "u \<in> seen_urls st")
    case True
    with 2 show ?thesis by simp
  next
    case False
    let ?v = "\<lparr>browser = b, url = u, title = t, visit_time = vt, visit_count = None\<rparr>"
    let ?mid = "(new_visits @ [?v], st\<lparr>seen_urls := insert u (seen_urls st)\<rparr>)"
    have "extends (new_visits, st) ?mid"
      unfolding extends_def using False
      by (intro conjI exI[of _ "[?v]"]) (simp_all add: only_errors_same)
    moreover have "extends ?mid (collect3 b history ?mid)" using 2(1) False by simp
    ultimately show ?thesis using False by (simp add: extends_trans)
  qed
qed

lemma adapter_body_frame:
  "adapter_body p q src st = Inl (e, st') \<Longrightarrow>
     seen_urls st' = seen_urls st \<and> csv_file st' = csv_file st \<and> sleeps st' = sleeps st
     \<and> log_lines st' = log_lines st"
  "adapter_body p q src st = Inr (r, st') \<Longrightarrow>
     seen_urls st' = seen_urls st \<and> csv_file st' = csv_file st \<and> sleeps st' = sleeps st
     \<and> log_lines st' = log_lines st"
  by (auto simp: adapter_body_def copy2_def fetchall_def os_remove_def split: store.splits sum.splits)

lemma get_chrome_history_frame:
  "seen_urls (snd (get_chrome_history p st)) = seen_urls st"
  "csv_file (snd (get_chrome_history p st)) = csv_file st"
  "sleeps (snd (get_chrome_history p st)) = sleeps st"
  "only_errors st (snd (get_chrome_history p st))"
  by (cases p; simp add: get_chrome_history_def adapter_body_def copy2_def fetchall_def
        os_remove_def logger_error_def only_errors_def)+

lemma get_safari_history_frame:
  "seen_urls (snd (get_safari_history p st)) = seen_urls st"
  "csv_file (snd (get_safari_history p st)) = csv_file st"
  "sleeps (snd (get_safari_history p st)) = sleeps st"
  "only_errors st (snd (get_safari_history p st))"
  by (cases p; simp add: get_safari_history_def adapter_body_def copy2_def fetchall_def
        os_remove_def logger_error_def only_errors_def)+

lemma get_firefox_history_frame:
  "seen_urls (snd (get_firefox_history p st)) = seen_urls st"
  "csv_file (snd (get_firefox_history p st)) = csv_file st"
  "sleeps (snd (get_firefox_history p st)) = sleeps st"
  "only_errors st (snd (get_firefox_history p st))"
  by (cases p; simp add: get_firefox_history_def adapter_body_def copy2_def fetchall_def
        os_remove_def logger_error_def only_errors_def)+

lemma extends_then_collect4:
  assumes "seen_urls st' = seen_urls (snd acc)" "csv_file st' = csv_file (snd acc)"
    "sleeps st' = sleeps (snd acc)" "only_errors (snd acc) st'"
  shows "extends acc (collect4 b h (fst acc, st'))"
proof -
  have "extends (fst acc, snd acc) (fst acc, st')" using assms by (rule extends_same_seen)
  then have a1: "extends acc (fst acc, st')" by simp
  have a2: "extends (fst acc, st') (collect4 b h (fst acc, st'))" by (rule collect4_extends)
  show ?thesis by (rule extends_trans[OF a1 a2])
qed

lemma extends_then_collect3:
  assumes "seen_urls st' = seen_urls (snd acc)" "csv_file st' = csv_file (snd acc)"
    "sleeps st' = sleeps (snd acc)" "only_errors (snd acc) st'"
  shows "extends acc (collect3 b h (fst acc, st'))"
proof -
  have "extends (fst acc, snd acc) (fst acc, st')" using assms by (rule extends_same_seen)
  then have a1: "extends acc (fst acc, st')" by simp
  have a2: "extends (fst acc, st') (collect3 b h (fst acc, st'))" by (rule collect3_extends)
  show ?thesis by (rule extends_trans[OF a1 a2])
qed

lemma check_chrome_extends: "extends acc (check_chrome e acc)"
proof (cases "chrome_path e")
  case None
  then show ?thesis by (simp add: check_chrome_def extends_refl)
next
  case (Some p)
  obtain h st' where g: "get_chrome_history p (snd acc) = (h, st')"
    by (cases "get_chrome_history p (snd acc)")
  have "extends acc (collect4 ''Chrome'' h (fst acc, st'))"
    using get_chrome_history_frame[where p=p and st="snd acc"] g by (intro extends_then_collect4) simp_all
  then show ?thesis using Some g by (simp add: check_chrome_def)
qed

lemma check_safari_extends: "extends acc (check_safari e acc)"
proof (cases "safari_path e")
  case None
  then show ?thesis by (simp add: check_safari_def extends_refl)
next
  case (Some p)
  obtain h st' where g: "get_safari_history p (snd acc) = (h, st')"
    by (cases "get_safari_history p (snd acc)")
  have "extends acc (collect3 ''Safari'' h (fst acc, st'))"
    using get_safari_history_frame[where p=p and st="snd acc"] g by (intro extends_then_collect3) simp_all
  then show ?thesis using Some g by (simp add: check_safari_def)
qed

lemma check_edge_extends: "extends acc (check_edge e acc)"
proof (cases "edge_path e")
  case None
  then show ?thesis by (simp add: check_edge_def extends_refl)
next
  case (Some p)
  obtain h st' where g: "get_chrome_history p (snd acc) = (h, st')"
    by (cases "get_chrome_history p (snd acc)")
  have "extends acc (collect4 ''Edge'' h (fst acc, st'))"
    using get_chrome_history_frame[where p=p and st="snd acc"] g by (intro extends_then_collect4) simp_all
  then show ?thesis using Some g by (simp add: check_edge_def)
qed

lemma check_profiles_extends: "extends acc (check_profiles ps acc)"
proof (induction ps acc rule: check_profiles.induct)
  case (1 acc)
  show ?case by (simp add: extends_refl)
next
  case (2 ps acc)
  then show ?case by simp
next
  case (3 p ps acc)
  obtain h st' where g: "get_firefox_history p (snd acc) = (h, st')"
    by (cases "get_firefox_history p (snd acc)")
  have a1: "extends acc (collect4 ''Firefox'' h (fst acc, st'))"
    using get_firefox_history_frame[where p=p and st="snd acc"] g by (intro extends_then_collect4) simp_all
  have a2: "extends (collect4 ''Firefox'' h (fst acc, st'))
       (check_profiles ps (collect4 ''Firefox'' h (fst acc, st')))"
    using 3[OF g[symmetric]] by simp
  show ?case using extends_trans[OF a1 a2] g by simp
qed

lemma check_firefox_extends:
  "check_firefox e acc = Inr acc' \<Longrightarrow> extends acc acc'"
  "check_firefox e acc = Inl (x, acc') \<Longrightarrow> acc' = acc"
  by (auto simp: check_firefox_def extends_refl check_profiles_extends split: option.splits profiles.splits)

lemma collect_all_extends:
  "collect_all e st = Inr acc \<Longrightarrow> extends ([], st) acc"
  "collect_all e st = Inl (x, acc) \<Longrightarrow> extends ([], st) acc"
proof -
  let ?a = "check_safari e (check_chrome e ([], st))"
  have a: "extends ([], st) ?a"
    using extends_trans[OF check_chrome_extends check_safari_extends] .
  show "collect_all e st = Inr acc \<Longrightarrow> extends ([], st) acc"
  proof -
    assume h: "collect_all e st = Inr acc"
    then obtain b where b: "check_firefox e ?a = Inr b" "acc = check_edge e b"
      by (auto simp: collect_all_def split: sum.splits)
    have "extends ?a b" using check_firefox_extends(1)[OF b(1)] .
    with a have "extends ([], st) b" by (rule extends_trans)
    then show ?thesis using b(2) check_edge_extends extends_trans by blast
  qed
  show "collect_all e st = Inl (x, acc) \<Longrightarrow> extends ([], st) acc"
  proof -
    assume h: "collect_all e st = Inl (x, acc)"
    then have "check_firefox e ?a = Inl (x, acc)"
      by (auto simp: collect_all_def split: sum.splits)
    then have "acc = ?a" by (rule check_firefox_extends(2))
    with a show ?thesis by simp
  qed
qed

lemma log_to_csv_body_cases:
  "(\<exists>e. log_to_csv_body f now v st = Inl (e, st))
   \<or> (\<exists>out. log_to_csv_body f now v st = Inr (st\<lparr>csv_file := Some out\<rparr>))
   \<or> (\<exists>e out. log_to_csv_body f now v st = Inl (e, st\<lparr>csv_file := Some out\<rparr>))"
  unfolding log_to_csv_body_def
  by (auto split: sum.split csv_fault.split prod.split option.split)

lemma log_to_csv_frame:
  "seen_urls (log_to_csv f now v st) = seen_urls st"
  "sleeps (log_to_csv f now v st) = sleeps st"
  "tmp_files (log_to_csv f now v st) = tmp_files st"
  using log_to_csv_body_cases[of f now v st]
  by (auto simp: log_to_csv_def logger_error_def)

lemma emit_frame:
  "seen_urls (emit f now v st) = seen_urls st"
  "sleeps (emit f now v st) = sleeps st"
  "tmp_files (emit f now v st) = tmp_files st"
  by (simp_all add: emit_def log_to_csv_frame logger_info_def)

lemma log_new_visits_frame:
  "seen_urls (log_new_visits e i vs st) = seen_urls st \<and>
   sleeps (log_new_visits e i vs st) = sleeps st \<and>
   tmp_files (log_new_visits e i vs st) = tmp_files st"
  by (induction vs arbitrary: i st) (simp_all add: emit_frame)

lemma extends_nil:
  assumes "extends ([], st) (nv, st')"
  shows "distinct (map url nv)" "url ` set nv \<inter> seen_urls st = {}"
    "seen_urls st' = seen_urls st \<union> url ` set nv"
    "csv_file st' = csv_file st" "sleeps st' = sleeps st"
  using assms by (auto simp: extends_def)

lemma iteration_props:
  "distinct (map url (collected (iteration e st)))
   \<and> url ` set (collected (iteration e st)) \<inter> seen_urls st = {}
   \<and> seen_urls (after (iteration e st)) = seen_urls st \<union> url ` set (collected (iteration e st))
   \<and> subseq (emitted (iteration e st)) (collected (iteration e st))
   \<and> sleeps (after (iteration e st)) = Suc (sleeps st)"
proof (cases "collect_all e st")
  case (Inl a)
  obtain x nv st' where a: "a = (x, nv, st')" by (cases a)
  have ex: "extends ([], st) (nv, st')" using collect_all_extends(2) Inl a by simp
  show ?thesis using Inl a extends_nil[OF ex]
    by (simp add: iteration_def time_sleep_def logger_error_def)
next
  case (Inr b)
  obtain nv st' where b: "b = (nv, st')" by (cases b)
  have ex: "extends ([], st) (nv, st')" using collect_all_extends(1) Inr b by simp
  show ?thesis using Inr b extends_nil[OF ex]
    by (simp add: iteration_def time_sleep_def log_new_visits_frame)
qed

lemma monitor_browsers_props:
  "distinct (map url (collected (monitor_browsers es st)))
   \<and> url ` set (collected (monitor_browsers es st)) \<inter> seen_urls st = {}
   \<and> seen_urls (after (monitor_browsers es st))
       = seen_urls st \<union> url ` set (collected (monitor_browsers es st))
   \<and> subseq (emitted (monitor_browsers es st)) (collected (monitor_browsers es st))
   \<and> sleeps (after (monitor_browsers es st)) = sleeps st + length es"
proof (induction es arbitrary: st)
  case Nil
  show ?case by simp
next
  case (Cons e es)
  let ?o1 = "iteration e st"
  let ?o2 = "monitor_browsers es (after ?o1)"
  note p1 = iteration_props[of e st]
  note p2 = Cons.IH[of "after ?o1"]
  have d: "distinct (map url (collected ?o1 @ collected ?o2))"
    using p1 p2 by auto
  have i: "url ` set (collected ?o1 @ collected ?o2) \<inter> seen_urls st = {}"
    using p1 p2 by auto
  have s: "seen_urls (after ?o2) = seen_urls st \<union> url ` set (collected ?o1 @ collected ?o2)"
    using p1 p2 by auto
  have q: "subseq (emitted ?o1 @ emitted ?o2) (collected ?o1 @ collected ?o2)"
    using p1 p2 by (simp add: list_emb_append_mono)
  have l: "sleeps (after ?o2) = sleeps st + length (e # es)"
    using p1 p2 by simp
  show ?case using d i s q l by (simp add: Let_def)
qed

lemma subseq_set_subset: "subseq xs ys \<Longrightarrow> set xs \<subseteq> set ys"
  by (induct rule: list_emb.induct) auto

lemma subseq_keeps_distinct: "subseq xs ys \<Longrightarrow> distinct ys \<Longrightarrow> distinct xs"
  by (induct rule: list_emb.induct) (auto dest: subseq_set_subset)

lemma subseq_distinct_map:
  "subseq xs ys \<Longrightarrow> distinct (map f ys) \<Longrightarrow> distinct (map f xs)"
  using subseq_map[of xs ys f] subseq_keeps_distinct by blast

section \<open>Claims about the dedup engine\<close>

text \<open>
  C1. Whatever the iterations of one run find, and from whatever state the run starts,
  the records handed to the sink have pairwise different urls: no url is emitted twice.
  The same holds for the records that pass the test \<^verbatim>\<open>url not in self.seen_urls\<close>
  (the collected ones), so the test succeeds at most once for each url, and no url that
  was in the dedup set when the run started is emitted.
\<close>

theorem url_emitted_at_most_once:
  "distinct (map url (emitted (run es st)))
   \<and> distinct (map url (collected (run es st)))
   \<and> url ` set (emitted (run es st)) \<inter> seen_urls st = {}"
proof -
  let ?st = "logger_info ''Website Monitor Daemon starting...'' st"
  have s: "seen_urls ?st = seen_urls st" by (simp add: logger_info_def)
  note p = monitor_browsers_props[of es ?st]
  have "set (emitted (run es st)) \<subseteq> set (collected (run es st))"
    using p by (auto simp: run_def dest: subseq_set_subset)
  moreover have "distinct (map url (emitted (run es st)))"
    using p subseq_distinct_map by (auto simp: run_def)
  ultimately show ?thesis using p s by (auto simp: run_def)
qed

theorem url_emitted_at_most_once_witness:
  "map url (emitted (run [chrome_env, chrome_env] (WebsiteMonitor None {}))) = [PStr ''http://a.com'']
   \<and> distinct (map url (emitted (run [chrome_env, chrome_env] (WebsiteMonitor None {}))))"
proof -
  have a: "map url (emitted (run [chrome_env, chrome_env] (WebsiteMonitor None {})))
            = [PStr ''http://a.com'']"
    by code_simp
  show ?thesis
    using a url_emitted_at_most_once[of "[chrome_env, chrome_env]" "WebsiteMonitor None {}"]
    by blast
qed

lemma collect_all_listdir_fails:
  assumes "firefox_base e = Some (ListdirFails x)"
  shows "collect_all e st = Inl (x, check_safari e (check_chrome e ([], st)))"
  using assms by (simp add: collect_all_def check_firefox_def)

lemma iteration_listdir_fails:
  assumes "firefox_base e = Some (ListdirFails x)"
  shows "iteration e st =
     \<lparr>collected = fst (check_safari e (check_chrome e ([], st))), emitted = [],
      after = time_sleep (logger_error (''Error in monitoring loop: '' @ exc_str x)
                (snd (check_safari e (check_chrome e ([], st)))))\<rparr>"
  using collect_all_listdir_fails[OF assms, of st]
  by (simp add: iteration_def split: prod.split)

lemma collect_all_marks_seen:
  "collect_all e st = Inr (nv, st') \<Longrightarrow> url ` set nv \<subseteq> seen_urls st'"
  "collect_all e st = Inl (x, nv, st') \<Longrightarrow> url ` set nv \<subseteq> seen_urls st'"
  using collect_all_extends[of e st] extends_nil(3)[of st nv st'] by auto

text \<open>
  C10. A url enters the dedup set in the collection loops, so every record in
  \<^verbatim>\<open>new_visits\<close> is already marked seen when the emission loop starts (first conjunct).
  When \<^verbatim>\<open>os.listdir\<close> of the Firefox profile directory raises, the iteration emits
  nothing: the records collected from Chrome and Safari are dropped, their urls stay in
  the dedup set, the CSV log is as before, the logger received only error records (no
  announcement), and no later iteration emits any of these urls.
\<close>

theorem collected_then_failed_is_lost:
  assumes "firefox_base e = Some (ListdirFails x)"
  shows "(\<forall>e' st0 nv st'. collect_all e' st0 = Inr (nv, st') \<longrightarrow> url ` set nv \<subseteq> seen_urls st')
     \<and> emitted (iteration e st) = []
     \<and> collected (iteration e st) = fst (check_safari e (check_chrome e ([], st)))
     \<and> url ` set (collected (iteration e st)) \<subseteq> seen_urls (after (iteration e st))
     \<and> csv_file (after (iteration e st)) = csv_file st
     \<and> only_errors st (after (iteration e st))
     \<and> url ` set (collected (iteration e st))
          \<inter> url ` set (emitted (monitor_browsers es (after (iteration e st)))) = {}"
proof -
  let ?acc = "check_safari e (check_chrome e ([], st))"
  let ?o = "iteration e st"
  note it = iteration_listdir_fails[OF assms, of st]
  have c1: "\<forall>e' st0 nv st'. collect_all e' st0 = Inr (nv, st') \<longrightarrow> url ` set nv \<subseteq> seen_urls st'"
    using collect_all_marks_seen(1) by blast
  have c2: "emitted ?o = []" by (simp add: it)
  have c3: "collected ?o = fst ?acc" by (simp add: it)
  have p: "seen_urls (after ?o) = seen_urls st \<union> url ` set (collected ?o)"
    using iteration_props[of e st] by simp
  have c4: "url ` set (collected ?o) \<subseteq> seen_urls (after ?o)" using p by auto
  have ex: "extends ([], st) ?acc"
    using extends_trans[OF check_chrome_extends check_safari_extends] .
  have c5: "csv_file (after ?o) = csv_file st"
    using ex by (simp add: it extends_def time_sleep_def logger_error_def)
  have l1: "only_errors st (snd ?acc)" using ex by (simp add: extends_def)
  have l2: "only_errors (snd ?acc) (after ?o)"
    by (simp add: it time_sleep_def only_errors_def logger_error_def)
  have c6: "only_errors st (after ?o)" by (rule only_errors_trans[OF l1 l2])
  have q: "url ` set (collected (monitor_browsers es (after ?o))) \<inter> seen_urls (after ?o) = {}"
    using monitor_browsers_props[of es "after ?o"] by simp
  have "set (emitted (monitor_browsers es (after ?o)))
          \<subseteq> set (collected (monitor_browsers es (after ?o)))"
    using monitor_browsers_props[of es "after ?o"] subseq_set_subset by blast
  then have c7: "url ` set (collected ?o)
          \<inter> url ` set (emitted (monitor_browsers es (after ?o))) = {}"
    using q c4 by blast
  show ?thesis using c1 c2 c3 c4 c5 c6 c7 by (intro conjI)
qed

theorem collected_then_failed_is_lost_witness:
  "firefox_base listdir_env = Some (ListdirFails (OSError ''Permission denied''))
   \<and> map url (collected (iteration listdir_env (WebsiteMonitor None {}))) = [PStr ''http://a.com'']
   \<and> emitted (iteration listdir_env (WebsiteMonitor None {})) = []
   \<and> csv_file (after (iteration listdir_env (WebsiteMonitor None {}))) = Some [fieldnames]
   \<and> url ` set (collected (iteration listdir_env (WebsiteMonitor None {})))
        \<inter> url ` set (emitted (monitor_browsers [chrome_env]
                              (after (iteration listdir_env (WebsiteMonitor None {}))))) = {}
   \<and> emitted (monitor_browsers [chrome_env]
        (after (iteration listdir_env (WebsiteMonitor None {})))) = []"
proof -
  have h: "firefox_base listdir_env = Some (ListdirFails (OSError ''Permission denied''))"
    by (simp add: listdir_env_def)
  have a: "map url (collected (iteration listdir_env (WebsiteMonitor None {}))) = [PStr ''http://a.com'']"
    by code_simp
  have b: "emitted (monitor_browsers [chrome_env]
        (after (iteration listdir_env (WebsiteMonitor None {})))) = []"
    by code_simp
  have c: "csv_file (WebsiteMonitor None {}) = Some [fieldnames]"
    by (simp add: WebsiteMonitor_def init_csv_file_def)
  note t = collected_then_failed_is_lost[OF h, of "WebsiteMonitor None {}" "[chrome_env]"]
  show ?thesis using h a b c t by simp
qed

lemma replace_chain:
  "replace (CHR 0x0D) '' '' (replace (CHR 0x0A) '' '' (replace (CHR 0x22) [CHR 0x22, CHR 0x22] s))
   = concat (map (\<lambda>c. if c = CHR 0x22 then [CHR 0x22, CHR 0x22]
                        else if c = CHR 0x0A \<or> c = CHR 0x0D then '' '' else [c]) s)"
proof (induction s)
  case Nil
  show ?case by (simp add: replace_def)
next
  case (Cons c s)
  then show ?case by (simp add: replace_def)
qed

section \<open>Claims about title sanitization\<close>

text \<open>
  C5. For every title string, the cleaning on line 64 replaces each double quote by two
  double quotes and each newline and each carriage return by one space, and leaves
  every other character as it is. The title \<^verbatim>\<open>He said "hi"\<close> + newline + \<^verbatim>\<open>bye\<close>
  becomes \<^verbatim>\<open>He said ""hi""\<close> + space + \<^verbatim>\<open>bye\<close>, and that is the title cell of the row
  \<^verbatim>\<open>log_to_csv\<close> writes for a record with this title.
\<close>

theorem title_is_sanitized:
  "clean_title (PStr s)
     = Inr (concat (map (\<lambda>c. if c = CHR 0x22 then [CHR 0x22, CHR 0x22]
                              else if c = CHR 0x0A \<or> c = CHR 0x0D then '' '' else [c]) s))
   \<and> clean_title (PStr (''He said '' @ [CHR 0x22] @ ''hi'' @ [CHR 0x22, CHR 0x0A] @ ''bye''))
     = Inr (''He said '' @ [CHR 0x22, CHR 0x22] @ ''hi'' @ [CHR 0x22, CHR 0x22] @ '' bye'')
   \<and> csv_file (log_to_csv NoFault ''2024-01-01T00:00:00''
         \<lparr>browser = ''Chrome'', url = PStr ''http://a.com'',
          title = PStr (''He said '' @ [CHR 0x22] @ ''hi'' @ [CHR 0x22, CHR 0x0A] @ ''bye''),
          visit_time = PStr ''2024-01-01 00:00:00'', visit_count = Some (PInt 1)\<rparr>
         (WebsiteMonitor None {}))
     = Some [fieldnames,
             [''2024-01-01T00:00:00'', ''Chrome'', ''http://a.com'',
              ''He said '' @ [CHR 0x22, CHR 0x22] @ ''hi'' @ [CHR 0x22, CHR 0x22] @ '' bye'',
              ''2024-01-01 00:00:00'', ''1'']]"
proof -
  have g: "clean_title (PStr s)
     = Inr (concat (map (\<lambda>c. if c = CHR 0x22 then [CHR 0x22, CHR 0x22]
                              else if c = CHR 0x0A \<or> c = CHR 0x0D then '' '' else [c]) s))"
    by (cases s) (simp_all add: clean_title_def replace_chain del: concat.simps map_eq_conv)
  have x: "clean_title (PStr (''He said '' @ [CHR 0x22] @ ''hi'' @ [CHR 0x22, CHR 0x0A] @ ''bye''))
     = Inr (''He said '' @ [CHR 0x22, CHR 0x22] @ ''hi'' @ [CHR 0x22, CHR 0x22] @ '' bye'')"
    by code_simp
  have r: "csv_file (log_to_csv NoFault ''2024-01-01T00:00:00''
         \<lparr>browser = ''Chrome'', url = PStr ''http://a.com'',
          title = PStr (''He said '' @ [CHR 0x22] @ ''hi'' @ [CHR 0x22, CHR 0x0A] @ ''bye''),
          visit_time = PStr ''2024-01-01 00:00:00'', visit_count = Some (PInt 1)\<rparr>
         (WebsiteMonitor None {}))
     = Some [fieldnames,
             [''2024-01-01T00:00:00'', ''Chrome'', ''http://a.com'',
              ''He said '' @ [CHR 0x22, CHR 0x22] @ ''hi'' @ [CHR 0x22, CHR 0x22] @ '' bye'',
              ''2024-01-01 00:00:00'', ''1'']]"
    by code_simp
  show ?thesis by (rule conjI[OF g conjI[OF x r]])
qed

section \<open>Claims about the source adapters\<close>

lemma adapter_body_results:
  "adapter_body t q (CopyFails x) st = Inl (x, st)"
  "adapter_body t q (QueryFails x) st = Inl (x, st\<lparr>tmp_files := insert t (tmp_files st)\<rparr>)"
  "adapter_body t q (Table db) st = Inr (q db, st\<lparr>tmp_files := tmp_files st - {t}\<rparr>)"
  by (simp_all add: adapter_body_def copy2_def fetchall_def os_remove_def)

text \<open>
  C6. Whatever exception the copy of the store or the query on the snapshot raises, each
  of the three adapters returns the empty list and logs one error record naming the
  exception; nothing else of the monitor changes but, after a failed query, the snapshot
  file. The adapters are total functions: no exception leaves them. Every iteration of
  the poll loop therefore reaches its sleep, whatever the stores hold.
\<close>

theorem read_failure_gives_empty_result:
  "get_chrome_history (CopyFails x) st
     = ([], logger_error (''Error reading Chrome history: '' @ exc_str x) st)
   \<and> get_chrome_history (QueryFails x) st
     = ([], logger_error (''Error reading Chrome history: '' @ exc_str x)
              (st\<lparr>tmp_files := insert ''/tmp/chrome_history_copy.db'' (tmp_files st)\<rparr>))
   \<and> get_safari_history (CopyFails x) st
     = ([], logger_error (''Error reading Safari history: '' @ exc_str x) st)
   \<and> get_safari_history (QueryFails x) st
     = ([], logger_error (''Error reading Safari history: '' @ exc_str x)
              (st\<lparr>tmp_files := insert ''/tmp/safari_history_copy.db'' (tmp_files st)\<rparr>))
   \<and> get_firefox_history (CopyFails x) st
     = ([], logger_error (''Error reading Firefox history: '' @ exc_str x) st)
   \<and> get_firefox_history (QueryFails x) st
     = ([], logger_error (''Error reading Firefox history: '' @ exc_str x)
              (st\<lparr>tmp_files := insert ''/tmp/firefox_history_copy.db'' (tmp_files st)\<rparr>))
   \<and> sleeps (after (iteration e st)) = Suc (sleeps st)
   \<and> sleeps (after (monitor_browsers es st)) = sleeps st + length es"
proof -
  have c: "get_chrome_history (CopyFails x) st
     = ([], logger_error (''Error reading Chrome history: '' @ exc_str x) st)"
    "get_chrome_history (QueryFails x) st
     = ([], logger_error (''Error reading Chrome history: '' @ exc_str x)
              (st\<lparr>tmp_files := insert ''/tmp/chrome_history_copy.db'' (tmp_files st)\<rparr>))"
    by (simp_all add: get_chrome_history_def adapter_body_results)
  have s: "get_safari_history (CopyFails x) st
     = ([], logger_error (''Error reading Safari history: '' @ exc_str x) st)"
    "get_safari_history (QueryFails x) st
     = ([], logger_error (''Error reading Safari history: '' @ exc_str x)
              (st\<lparr>tmp_files := insert ''/tmp/safari_history_copy.db'' (tmp_files st)\<rparr>))"
    by (simp_all add: get_safari_history_def adapter_body_results)
  have f: "get_firefox_history (CopyFails x) st
     = ([], logger_error (''Error reading Firefox history: '' @ exc_str x) st)"
    "get_firefox_history (QueryFails x) st
     = ([], logger_error (''Error reading Firefox history: '' @ exc_str x)
              (st\<lparr>tmp_files := insert ''/tmp/firefox_history_copy.db'' (tmp_files st)\<rparr>))"
    by (simp_all add: get_firefox_history_def adapter_body_results)
  have i: "sleeps (after (iteration e st)) = Suc (sleeps st)"
    using iteration_props[of e st] by simp
  have m: "sleeps (after (monitor_browsers es st)) = sleeps st + length es"
    using monitor_browsers_props[of es st] by simp
  show ?thesis
    by (rule conjI[OF c(1) conjI[OF c(2) conjI[OF s(1) conjI[OF s(2) conjI[OF f(1)
          conjI[OF f(2) conjI[OF i m]]]]]]])
qed

lemma snapshot_after_adapter:
  "tmp_files (snd (get_chrome_history (Table db) st)) = tmp_files st - {''/tmp/chrome_history_copy.db''}"
  "tmp_files (snd (get_chrome_history (CopyFails x) st)) = tmp_files st"
  "tmp_files (snd (get_chrome_history (QueryFails x) st))
     = insert ''/tmp/chrome_history_copy.db'' (tmp_files st)"
  "tmp_files (snd (get_safari_history (Table db2) st)) = tmp_files st - {''/tmp/safari_history_copy.db''}"
  "tmp_files (snd (get_safari_history (CopyFails x) st)) = tmp_files st"
  "tmp_files (snd (get_safari_history (QueryFails x) st))
     = insert ''/tmp/safari_history_copy.db'' (tmp_files st)"
  "tmp_files (snd (get_firefox_history (Table db3) st)) = tmp_files st - {''/tmp/firefox_history_copy.db''}"
  "tmp_files (snd (get_firefox_history (CopyFails x) st)) = tmp_files st"
  "tmp_files (snd (get_firefox_history (QueryFails x) st))
     = insert ''/tmp/firefox_history_copy.db'' (tmp_files st)"
  by (simp_all add: get_chrome_history_def get_safari_history_def get_firefox_history_def
        adapter_body_results logger_error_def)

text \<open>
  C3. The snapshot is removed on the path where copy and query succeed. When opening or
  querying the snapshot raises, the handler returns without removing it: the snapshot
  file the adapter created is still there when the adapter returns. The three adapters
  behave alike.
\<close>

theorem snapshot_left_after_query_error:
  "''/tmp/chrome_history_copy.db''
     \<in> tmp_files (snd (get_chrome_history (QueryFails (DatabaseError ''file is not a database''))
                        (WebsiteMonitor None {})))
   \<and> ''/tmp/safari_history_copy.db''
     \<in> tmp_files (snd (get_safari_history (QueryFails (DatabaseError ''file is not a database''))
                        (WebsiteMonitor None {})))
   \<and> ''/tmp/firefox_history_copy.db''
     \<in> tmp_files (snd (get_firefox_history (QueryFails (DatabaseError ''file is not a database''))
                        (WebsiteMonitor None {})))
   \<and> tmp_files (WebsiteMonitor None {}) = {}
   \<and> tmp_files (snd (get_chrome_history (Table [a_com]) (WebsiteMonitor None {}))) = {}"
  by (simp add: snapshot_after_adapter WebsiteMonitor_def init_csv_file_def)

end
